theory Spec2Isabelle
  imports Complex_Main "HOL-Library.AList"
begin

section \<open>Graph model (types.ts)\<close>

text \<open>
  The type definitions of the graph orchestrator. An object used as a dictionary
  (\<^verbatim>\<open>Record<string, T>\<close>) is an association list in the enumeration order of
  \<^verbatim>\<open>Object.keys\<close>; reading a key is \<open>map_of\<close>, so ids are taken not to name a
  property that every object inherits (\<^verbatim>\<open>constructor\<close>, \<^verbatim>\<open>toString\<close>). The descriptive \<^verbatim>\<open>metadata\<close>
  fields carry no behaviour and are left out. The field \<^verbatim>\<open>output\<close> of a node is
  called \<open>outputKey\<close> here.
\<close>

datatype SubagentType = Explore | Plan | GeneralPurpose

datatype ClaudeModel = Haiku | Sonnet | Opus

record GraphNode =
  agent :: SubagentType
  task :: string
  dependencies :: "string list option"
  model :: "ClaudeModel option"
  outputKey :: string

record Graph =
  nodes :: "(string \<times> GraphNode) list"
  entry :: "string option"

text \<open>
  What \<^verbatim>\<open>topologicalSort\<close> can throw: the \<^verbatim>\<open>Error\<close> it raises itself
  (\<^verbatim>\<open>Dependency not found: depId (required by nodeId)\<close>), and the \<^verbatim>\<open>TypeError\<close> of
  reading a property of \<^verbatim>\<open>undefined\<close> when \<^verbatim>\<open>graph.nodes[nodeId]\<close> is missing.
\<close>

datatype GraphError = DependencyNotFound string string | TypeError

definition lookupNode :: "Graph \<Rightarrow> string \<Rightarrow> GraphNode option" where
  "lookupNode g k = map_of (nodes g) k"

definition nodeIds :: "Graph \<Rightarrow> string list" where
  "nodeIds g = map fst (nodes g)"

definition depsOf :: "GraphNode \<Rightarrow> string list" where
  "depsOf n = (case dependencies n of None \<Rightarrow> [] | Some ds \<Rightarrow> ds)"

section \<open>Scheduler: topologicalSort (orchestrator.ts)\<close>

text \<open>
  \<^verbatim>\<open>graph.entry ? [graph.entry] : Object.keys(graph.nodes).filter(...)\<close>: an empty
  string is falsy, so an entry \<^verbatim>\<open>""\<close> counts as not declared. A node is a default
  entry when \<^verbatim>\<open>dependencies\<close> is missing or empty.
\<close>

definition noDependencies :: "GraphNode \<Rightarrow> bool" where
  "noDependencies n = (case dependencies n of None \<Rightarrow> True | Some ds \<Rightarrow> length ds = 0)"

definition entryNodes :: "Graph \<Rightarrow> string list" where
  "entryNodes g =
     (case entry g of
        Some e \<Rightarrow> if e \<noteq> [] then [e]
                  else map fst (filter (\<lambda>(k, n). noDependencies n) (nodes g))
      | None \<Rightarrow> map fst (filter (\<lambda>(k, n). noDependencies n) (nodes g)))"

text \<open>
  The closure \<^verbatim>\<open>visit\<close> with the two variables it captures, \<^verbatim>\<open>visited\<close> and
  \<^verbatim>\<open>order\<close>, passed as a state. \<open>visitDeps\<close> is the \<^verbatim>\<open>for (const depId of
  node.dependencies)\<close> loop in its body.
\<close>

type_synonym sortState = "string set \<times> string list"

function visit :: "Graph \<Rightarrow> string \<Rightarrow> sortState \<Rightarrow> GraphError + sortState"
  and visitDeps :: "Graph \<Rightarrow> string \<Rightarrow> string list \<Rightarrow> sortState \<Rightarrow> GraphError + sortState"
where
  "visit g nodeId (visited, order) =
     (if nodeId \<in> visited then Inr (visited, order)
      else (case lookupNode g nodeId of
              None \<Rightarrow> Inl TypeError
            | Some node \<Rightarrow>
                (case visitDeps g nodeId (depsOf node) (insert nodeId visited, order) of
                   Inl e \<Rightarrow> Inl e
                 | Inr (visited', order') \<Rightarrow> Inr (visited', order' @ [nodeId]))))"
| "visitDeps g nodeId [] s = Inr s"
| "visitDeps g nodeId (depId # rest) s =
     (case lookupNode g depId of
        None \<Rightarrow> Inl (DependencyNotFound depId nodeId)
      | Some _ \<Rightarrow>
          (case visit g depId s of
             Inl e \<Rightarrow> Inl e
           | Inr s' \<Rightarrow> visitDeps g nodeId rest s'))"
  by pat_completeness auto

lemma visit_grows_dom:
  "visit_visitDeps_dom (Inl (g, n, s)) \<Longrightarrow> visit g n s = Inr s' \<Longrightarrow> fst s \<subseteq> fst s'"
  "visit_visitDeps_dom (Inr (g, n, ds, s)) \<Longrightarrow> visitDeps g n ds s = Inr s' \<Longrightarrow> fst s \<subseteq> fst s'"
proof (induct g n s and g n ds s arbitrary: s' and s' rule: visit_visitDeps.pinduct)
  case (1 g nodeId visited order)
  show ?case
  proof (cases "nodeId \<in> visited")
    case True
    with 1(1,3) show ?thesis by (simp add: visit.psimps)
  next
    case False
    with 1(1,3) obtain node where node: "lookupNode g nodeId = Some node"
      by (auto simp: visit.psimps split: option.splits)
    with False 1(1,3) obtain v' o' where
      r: "visitDeps g nodeId (depsOf node) (insert nodeId visited, order) = Inr (v', o')"
      and s': "s' = (v', o' @ [nodeId])"
      by (auto simp: visit.psimps split: sum.splits)
    from 1(2)[OF False node r] s' show ?thesis by simp
  qed
next
  case (2 g nodeId s)
  then show ?case by (simp add: visitDeps.psimps)
next
  case (3 g nodeId depId rest s)
  from 3(1,4) obtain node where node: "lookupNode g depId = Some node"
    by (auto simp: visitDeps.psimps split: option.splits)
  with 3(1,4) obtain s1 where r1: "visit g depId s = Inr s1"
    and r2: "visitDeps g nodeId rest s1 = Inr s'"
    by (auto simp: visitDeps.psimps split: sum.splits)
  from 3(2)[OF node r1] 3(3)[OF node r1 r2] show ?case by simp
qed

text \<open>
  The recursion ends because every call of \<open>visit\<close> that goes on adds a node id of
  the graph to \<open>visited\<close>, and the loop over the dependencies never removes one.
\<close>

termination visit
proof (relation "inv_image (less_than <*lex*> less_than)
    (\<lambda>x. case x of
       Inl (g, n, s) \<Rightarrow> (card (set (nodeIds g) - fst s), 0::nat)
     | Inr (g, n, ds, s) \<Rightarrow> (card (set (nodeIds g) - fst s), Suc (length ds)))", goal_cases)
  case 1
  show ?case by (intro wf_inv_image wf_lex_prod wf_less_than)
next
  case (2 g nodeId visited order node)
  then have "nodeId \<in> set (nodeIds g)"
    by (auto simp: lookupNode_def nodeIds_def dest: map_of_SomeD intro: rev_image_eqI)
  with 2 have "card (set (nodeIds g) - insert nodeId visited) < card (set (nodeIds g) - visited)"
    by (intro psubset_card_mono) auto
  then show ?case by simp
next
  case (3 g nodeId depId rest s x2)
  then show ?case by simp
next
  case (4 g nodeId depId rest s x2 s')
  then have "fst s \<subseteq> fst s'" using visit_grows_dom(1) by blast
  then have "card (set (nodeIds g) - fst s') \<le> card (set (nodeIds g) - fst s)"
    by (intro card_mono) auto
  then show ?case by auto
qed

declare visit.simps [simp del]

text \<open>The loop \<^verbatim>\<open>for (const entryNode of entryNodes) visit(entryNode)\<close>.\<close>

fun visitAll :: "Graph \<Rightarrow> string list \<Rightarrow> sortState \<Rightarrow> GraphError + sortState" where
  "visitAll g [] s = Inr s"
| "visitAll g (e # es) s =
     (case visit g e s of Inl err \<Rightarrow> Inl err | Inr s' \<Rightarrow> visitAll g es s')"

text \<open>
  \<^verbatim>\<open>topologicalSort\<close> returns \<^verbatim>\<open>order\<close>. Its one other effect is the
  \<^verbatim>\<open>console.warn\<close> of the unreachable nodes, printed when the list is not empty: the
  second component of the result is that list.
\<close>

definition topologicalSort :: "Graph \<Rightarrow> GraphError + (string list \<times> string list)" where
  "topologicalSort g =
     (case visitAll g (entryNodes g) ({}, []) of
        Inl e \<Rightarrow> Inl e
      | Inr (visited, order) \<Rightarrow> Inr (order, filter (\<lambda>nodeId. nodeId \<notin> visited) (nodeIds g)))"

section \<open>JavaScript values\<close>

text \<open>
  Values of type \<^verbatim>\<open>any\<close>: the run input, the outputs of the backend and the
  entries of \<^verbatim>\<open>context.outputs\<close>. Numbers are the finite ones, with \<^verbatim>\<open>NaN\<close>
  apart; arrays and functions are objects. \<open>truthy\<close> is the coercion to a boolean
  that \<^verbatim>\<open>||\<close>, \<^verbatim>\<open>if\<close> and \<^verbatim>\<open>&&\<close> apply.
\<close>

datatype jsany =
    JUndefined
  | JNull
  | JBool bool
  | JNum real
  | JNaN
  | JStr string
  | JObj "(string \<times> jsany) list"

fun truthy :: "jsany \<Rightarrow> bool" where
  "truthy JUndefined = False"
| "truthy JNull = False"
| "truthy (JBool b) = b"
| "truthy (JNum x) = (x \<noteq> 0)"
| "truthy JNaN = False"
| "truthy (JStr s) = (s \<noteq> [])"
| "truthy (JObj props) = True"

text \<open>
  \<^verbatim>\<open>a === b\<close>: values of different types are never equal, \<^verbatim>\<open>NaN\<close> equals
  nothing. Objects are equal when they are the same reference; the values here carry
  no identity, and no comparison of two objects is made by the code modelled.
\<close>

fun strictEquals :: "jsany \<Rightarrow> jsany \<Rightarrow> bool" where
  "strictEquals JUndefined JUndefined = True"
| "strictEquals JNull JNull = True"
| "strictEquals (JBool a) (JBool b) = (a = b)"
| "strictEquals (JNum a) (JNum b) = (a = b)"
| "strictEquals (JStr a) (JStr b) = (a = b)"
| "strictEquals a b = False"

text \<open>Reading a property: \<^verbatim>\<open>obj[key]\<close> is \<^verbatim>\<open>undefined\<close> when the key is missing.\<close>

definition getProp :: "(string \<times> jsany) list \<Rightarrow> string \<Rightarrow> jsany" where
  "getProp obj k = (case map_of obj k of None \<Rightarrow> JUndefined | Some v \<Rightarrow> v)"

text \<open>
  Strings are byte strings; \<^verbatim>\<open>toLowerCase\<close> is modelled on the ASCII letters.
  \<^verbatim>\<open>s.includes(sub)\<close> is \<open>strIncludes\<close>.
\<close>

definition toLowerChar :: "char \<Rightarrow> char" where
  "toLowerChar c =
     (case map_of (zip ''ABCDEFGHIJKLMNOPQRSTUVWXYZ'' ''abcdefghijklmnopqrstuvwxyz'') c of
        None \<Rightarrow> c
      | Some l \<Rightarrow> l)"

definition toLowerCase :: "string \<Rightarrow> string" where
  "toLowerCase s = map toLowerChar s"

fun startsWith :: "string \<Rightarrow> string \<Rightarrow> bool" where
  "startsWith s [] = True"
| "startsWith [] (c # cs) = False"
| "startsWith (x # xs) (c # cs) = (x = c \<and> startsWith xs cs)"

fun strIncludes :: "string \<Rightarrow> string \<Rightarrow> bool" where
  "strIncludes [] sub = (sub = [])"
| "strIncludes (c # cs) sub = (startsWith (c # cs) sub \<or> strIncludes cs sub)"

text \<open>The decimal digits of a count, as a template literal prints it.\<close>

fun showNat :: "nat \<Rightarrow> string" where
  "showNat n =
     (if n < 10 then [''0123456789'' ! n]
      else showNat (n div 10) @ [''0123456789'' ! (n mod 10)])"

declare showNat.simps [simp del]

section \<open>Tier router (model-router.ts)\<close>

text \<open>
  JavaScript numbers are IEEE doubles: a literal is the double nearest to it, and every
  arithmetic operation is the exact operation followed by rounding. The rounding is the
  parameter \<open>rnd\<close> of the router's functions; the identity gives exact arithmetic.
\<close>

record ModelConfig =
  name :: ClaudeModel
  costPer1MInputTokens :: real
  costPer1MOutputTokens :: real
  maxTokens :: nat
  strengths :: "string list"

fun MODEL_CONFIGS :: "(real \<Rightarrow> real) \<Rightarrow> ClaudeModel \<Rightarrow> ModelConfig" where
  "MODEL_CONFIGS rnd Haiku =
     \<lparr>name = Haiku, costPer1MInputTokens = rnd (80 / 100), costPer1MOutputTokens = rnd 4,
      maxTokens = 200000,
      strengths = [''Fast exploration'', ''File scanning'', ''Simple extraction'',
        ''Pattern matching'', ''Quick analysis'']\<rparr>"
| "MODEL_CONFIGS rnd Sonnet =
     \<lparr>name = Sonnet, costPer1MInputTokens = rnd 15, costPer1MOutputTokens = rnd 75,
      maxTokens = 200000,
      strengths = [''Deep analysis'', ''Complex reasoning'', ''Architecture design'',
        ''Tutorial generation'', ''Code understanding'']\<rparr>"
| "MODEL_CONFIGS rnd Opus =
     \<lparr>name = Opus, costPer1MInputTokens = rnd 75, costPer1MOutputTokens = rnd 375,
      maxTokens = 200000,
      strengths = [''Highest quality'', ''Most complex tasks'', ''Critical decisions'',
        ''Novel challenges'']\<rparr>"

fun DEFAULT_MODELS :: "SubagentType \<Rightarrow> ClaudeModel" where
  "DEFAULT_MODELS Explore = Haiku"
| "DEFAULT_MODELS Plan = Sonnet"
| "DEFAULT_MODELS GeneralPurpose = Sonnet"

datatype Complexity = Low | Medium | High

text \<open>The second argument of \<^verbatim>\<open>selectModel\<close>; \<^verbatim>\<open>fileCount\<close> is a count.\<close>

record RouterContext =
  fileCount :: "nat option"
  complexity :: "Complexity option"

record ModelRoutingDecision =
  rd_agent :: SubagentType
  rd_model :: ClaudeModel
  rd_reasoning :: string
  rd_estimatedCost :: real

definition estimateCost :: "(real \<Rightarrow> real) \<Rightarrow> ClaudeModel \<Rightarrow> real \<Rightarrow> real \<Rightarrow> real" where
  "estimateCost rnd m inputTokens outputTokens =
     (let config = MODEL_CONFIGS rnd m;
          inputCost = rnd (rnd (inputTokens / 1000000) * costPer1MInputTokens config);
          outputCost = rnd (rnd (outputTokens / 1000000) * costPer1MOutputTokens config)
      in rnd (inputCost + outputCost))"

text \<open>\<^verbatim>\<open>context.fileCount && context.fileCount > 50\<close>.\<close>

definition largeFileCount :: "RouterContext \<Rightarrow> bool" where
  "largeFileCount c = (case fileCount c of None \<Rightarrow> False | Some n \<Rightarrow> n \<noteq> 0 \<and> n > 50)"

definition selectModelByHeuristics :: "GraphNode \<Rightarrow> RouterContext \<Rightarrow> ClaudeModel" where
  "selectModelByHeuristics node c =
     (let t = toLowerCase (task node) in
      if strIncludes t ''scan'' \<or> strIncludes t ''explore'' \<or> strIncludes t ''find''
         \<or> strIncludes t ''identify'' \<or> strIncludes t ''count'' \<or> strIncludes t ''list''
      then Haiku
      else if strIncludes t ''analyze'' \<or> strIncludes t ''understand''
         \<or> strIncludes t ''architecture'' \<or> strIncludes t ''design''
         \<or> strIncludes t ''pattern''
      then Sonnet
      else if strIncludes t ''generate'' \<or> strIncludes t ''create'' \<or> strIncludes t ''write''
         \<or> strIncludes t ''compile''
      then Sonnet
      else if largeFileCount c then Haiku
      else if complexity c = Some High then Sonnet
      else DEFAULT_MODELS (agent node))"

text \<open>\<^verbatim>\<open>reasons.join('; ')\<close>.\<close>

fun joinReasons :: "string list \<Rightarrow> string" where
  "joinReasons [] = []"
| "joinReasons [r] = r"
| "joinReasons (r # rs) = r @ ''; '' @ joinReasons rs"

definition explainSelection :: "GraphNode \<Rightarrow> RouterContext \<Rightarrow> ClaudeModel \<Rightarrow> string" where
  "explainSelection node c m =
     joinReasons
       (case m of
          Haiku \<Rightarrow>
            ''Optimized for fast, cost-effective execution'' #
            (case fileCount c of
               None \<Rightarrow> []
             | Some n \<Rightarrow>
                 if n \<noteq> 0 \<and> n > 50
                 then [''Large file count ('' @ showNat n @ '') benefits from efficient scanning'']
                 else [])
        | Sonnet \<Rightarrow>
            ''Requires sophisticated reasoning and analysis'' #
            (if complexity c = Some High
             then [''High complexity task needs advanced capabilities'']
             else [])
        | Opus \<Rightarrow> [''Highest quality required for critical task''])"

definition selectModel ::
  "(real \<Rightarrow> real) \<Rightarrow> GraphNode \<Rightarrow> RouterContext \<Rightarrow> ModelRoutingDecision" where
  "selectModel rnd node c =
     (case model node of
        Some m \<Rightarrow>
          \<lparr>rd_agent = agent node, rd_model = m,
           rd_reasoning = ''Explicitly specified in node definition'',
           rd_estimatedCost = estimateCost rnd m 10000 2000\<rparr>
      | None \<Rightarrow>
          (let m = selectModelByHeuristics node c in
           \<lparr>rd_agent = agent node, rd_model = m,
            rd_reasoning = explainSelection node c m,
            rd_estimatedCost = estimateCost rnd m 10000 2000\<rparr>))"

section \<open>Execution context and orchestrator (orchestrator.ts)\<close>

text \<open>
  \<^verbatim>\<open>ExecutionContext\<close>, \<^verbatim>\<open>NodeResult\<close> and \<^verbatim>\<open>GraphResult\<close>. The fields of
  \<^verbatim>\<open>metadata\<close> and \<^verbatim>\<open>metrics\<close> stand beside the others; the fields of a node result
  are prefixed \<open>nr_\<close> and those of a graph result \<open>gr_\<close>. The readings of
  \<^verbatim>\<open>Date.now()\<close> (start and end times, durations) and the console log are left out:
  nothing the orchestrator decides depends on them.
\<close>

record ExecutionContext =
  outputs :: "(string \<times> jsany) list"
  runInput :: jsany
  completedNodes :: "string list"
  failedNodes :: "string list"

record NodeResult =
  nr_nodeId :: string
  nr_success :: bool
  nr_output :: jsany
  nr_error :: "string option"
  nr_tokensUsed :: "nat option"

record GraphResult =
  gr_success :: bool
  gr_output :: jsany
  gr_nodeResults :: "(string \<times> NodeResult) list"
  gr_totalTokens :: nat
  gr_nodeCount :: nat
  gr_successCount :: nat
  gr_failureCount :: nat

text \<open>
  What a run is given from outside. \<open>invokeSubagent\<close> is the execution backend: it
  returns an output or throws (\<open>Inl\<close> the message of the error), and may change the
  world \<open>'w\<close> it lives in. \<open>jsonStringify\<close> is \<^verbatim>\<open>JSON.stringify\<close>, with a flag for
  the call with indentation; it is \<open>None\<close> where \<^verbatim>\<open>JSON.stringify\<close> returns
  \<^verbatim>\<open>undefined\<close>. \<open>fround\<close> is the rounding of floating-point arithmetic.
\<close>

record 'w Env =
  invokeSubagent ::
    "SubagentType \<Rightarrow> ClaudeModel \<Rightarrow> string \<Rightarrow> (string \<times> jsany) list \<Rightarrow> 'w
      \<Rightarrow> (string + jsany) \<times> 'w"
  jsonStringify :: "bool \<Rightarrow> jsany \<Rightarrow> string option"
  fround :: "real \<Rightarrow> real"

fun estimateComplexity :: "string \<Rightarrow> Complexity" where
  "estimateComplexity t =
     (let taskLower = toLowerCase t in
      if strIncludes taskLower ''analyze architecture'' \<or> strIncludes taskLower ''deep analysis''
         \<or> strIncludes taskLower ''complex pattern'' \<or> strIncludes taskLower ''design''
      then High
      else if strIncludes taskLower ''scan'' \<or> strIncludes taskLower ''list''
         \<or> strIncludes taskLower ''count'' \<or> strIncludes taskLower ''find''
      then Low
      else Medium)"

text \<open>
  \<^verbatim>\<open>Array.prototype.find\<close> calls its predicate with the element and its index, and
  returns the first element accepted.
\<close>

fun findWithIndex :: "('a \<Rightarrow> nat \<Rightarrow> bool) \<Rightarrow> 'a list \<Rightarrow> nat \<Rightarrow> 'a option" where
  "findWithIndex p [] i = None"
| "findWithIndex p (x # xs) i = (if p x i then Some x else findWithIndex p xs (Suc i))"

text \<open>
  \<^verbatim>\<open>prepareDependencyInputs\<close>. The predicate given to \<^verbatim>\<open>find\<close> is
  \<^verbatim>\<open>(_, key) => key === depId\<close>: \<^verbatim>\<open>key\<close> is the index of the element in
  \<^verbatim>\<open>Object.values(context.outputs)\<close>, a number, and \<^verbatim>\<open>depId\<close> is a string.
\<close>

definition findDependencyOutput :: "ExecutionContext \<Rightarrow> string \<Rightarrow> jsany" where
  "findDependencyOutput c depId =
     (case findWithIndex (\<lambda>_ key. strictEquals (JNum (real key)) (JStr depId))
             (map snd (outputs c)) 0 of
        None \<Rightarrow> JUndefined
      | Some v \<Rightarrow> v)"

fun collectInputs ::
  "ExecutionContext \<Rightarrow> string list \<Rightarrow> (string \<times> jsany) list \<Rightarrow> (string \<times> jsany) list" where
  "collectInputs c [] inputs = inputs"
| "collectInputs c (depId # rest) inputs =
     (let depNode = findDependencyOutput c depId in
      if depNode \<noteq> JUndefined
      then collectInputs c rest (AList.update depId depNode inputs)
      else collectInputs c rest inputs)"

definition prepareDependencyInputs ::
  "GraphNode \<Rightarrow> ExecutionContext \<Rightarrow> (string \<times> jsany) list" where
  "prepareDependencyInputs node c =
     (case dependencies node of None \<Rightarrow> [] | Some ds \<Rightarrow> collectInputs c ds [])"

text \<open>A template literal prints \<^verbatim>\<open>undefined\<close> for an undefined value.\<close>

definition printJson :: "(bool \<Rightarrow> jsany \<Rightarrow> string option) \<Rightarrow> jsany \<Rightarrow> string" where
  "printJson stringify v = (case stringify True v of None \<Rightarrow> ''undefined'' | Some s \<Rightarrow> s)"

definition buildPrompt ::
  "(bool \<Rightarrow> jsany \<Rightarrow> string option) \<Rightarrow> GraphNode \<Rightarrow> (string \<times> jsany) list \<Rightarrow> jsany \<Rightarrow> string" where
  "buildPrompt stringify node dependencyInputs originalInput =
     ''Task: '' @ task node @ ''\<newline>\<newline>''
     @ (if truthy originalInput
        then ''Original Input:\<newline>'' @ printJson stringify originalInput @ ''\<newline>\<newline>''
        else [])
     @ (if length dependencyInputs > 0
        then ''Context from Dependencies:\<newline>''
             @ concat (map (\<lambda>(depId, out). ''\<newline>'' @ depId @ '':\<newline>''
                              @ printJson stringify out @ ''\<newline>'') dependencyInputs)
             @ ''\<newline>''
        else [])
     @ ''Instructions:\<newline>''
     @ ''1. Complete the task described above\<newline>''
     @ ''2. Use the provided context from dependencies\<newline>''
     @ ''3. Return results in a structured format\<newline>''
     @ ''4. Be concise and focus on the specific task\<newline>''"

text \<open>
  \<^verbatim>\<open>estimateTokens\<close>: \<^verbatim>\<open>Math.ceil(n / 4)\<close> of the two lengths. Where
  \<^verbatim>\<open>JSON.stringify(output)\<close> is \<^verbatim>\<open>undefined\<close>, reading its length throws.
\<close>

definition estimateTokens ::
  "(bool \<Rightarrow> jsany \<Rightarrow> string option) \<Rightarrow> string \<Rightarrow> jsany \<Rightarrow> nat option" where
  "estimateTokens stringify prompt out =
     (case stringify False out of
        None \<Rightarrow> None
      | Some s \<Rightarrow> Some ((length prompt + 3) div 4 + (length s + 3) div 4))"

definition failureResult :: "string \<Rightarrow> string \<Rightarrow> NodeResult" where
  "failureResult nodeId message =
     \<lparr>nr_nodeId = nodeId, nr_success = False, nr_output = JNull, nr_error = Some message,
      nr_tokensUsed = None\<rparr>"

text \<open>
  \<^verbatim>\<open>executeNode\<close>: everything it does is inside its \<^verbatim>\<open>try\<close>, so an error thrown by
  the backend, or by \<^verbatim>\<open>estimateTokens\<close>, becomes a result with \<^verbatim>\<open>success: false\<close>.
\<close>

definition executeNode ::
  "'w Env \<Rightarrow> string \<Rightarrow> GraphNode \<Rightarrow> ExecutionContext \<Rightarrow> 'w \<Rightarrow> NodeResult \<times> 'w" where
  "executeNode env nodeId node c w =
     (let routing = selectModel (fround env) node
            \<lparr>fileCount = None, complexity = Some (estimateComplexity (task node))\<rparr>;
          nodeInput = prepareDependencyInputs node c;
          prompt = buildPrompt (jsonStringify env) node nodeInput (runInput c)
      in case invokeSubagent env (rd_agent routing) (rd_model routing) prompt nodeInput w of
           (Inl message, w') \<Rightarrow> (failureResult nodeId message, w')
         | (Inr out, w') \<Rightarrow>
             (case estimateTokens (jsonStringify env) prompt out of
                None \<Rightarrow>
                  (failureResult nodeId
                     ''Cannot read properties of undefined (reading 'length')'', w')
              | Some tokens \<Rightarrow>
                  (\<lparr>nr_nodeId = nodeId, nr_success = True, nr_output = out, nr_error = None,
                    nr_tokensUsed = Some tokens\<rparr>, w')))"

text \<open>
  The state of the loop of \<^verbatim>\<open>execute\<close>: the context, \<^verbatim>\<open>nodeResults\<close> and
  \<^verbatim>\<open>totalTokens\<close>.
\<close>

record RunState =
  ctx :: ExecutionContext
  nodeResults :: "(string \<times> NodeResult) list"
  totalTokens :: nat

definition initialState :: "jsany \<Rightarrow> RunState" where
  "initialState inp =
     \<lparr>ctx = \<lparr>outputs = [], runInput = inp, completedNodes = [], failedNodes = []\<rparr>,
      nodeResults = [], totalTokens = 0\<rparr>"

definition recordSuccess :: "string \<Rightarrow> GraphNode \<Rightarrow> NodeResult \<Rightarrow> RunState \<Rightarrow> RunState" where
  "recordSuccess nodeId node result st =
     \<lparr>ctx = (ctx st)\<lparr>outputs := AList.update (outputKey node) (nr_output result) (outputs (ctx st)),
                      completedNodes := completedNodes (ctx st) @ [nodeId]\<rparr>,
      nodeResults = AList.update nodeId result (nodeResults st),
      totalTokens = (case nr_tokensUsed result of
                       None \<Rightarrow> totalTokens st
                     | Some t \<Rightarrow> if t \<noteq> 0 then totalTokens st + t else totalTokens st)\<rparr>"

definition recordFailure :: "string \<Rightarrow> NodeResult \<Rightarrow> RunState \<Rightarrow> RunState" where
  "recordFailure nodeId result st =
     \<lparr>ctx = (ctx st)\<lparr>failedNodes := failedNodes (ctx st) @ [nodeId]\<rparr>,
      nodeResults = AList.update nodeId result (nodeResults st),
      totalTokens = totalTokens st\<rparr>"

text \<open>
  The loop \<^verbatim>\<open>for (const nodeId of executionOrder)\<close>. Reading \<^verbatim>\<open>node.agent\<close> of a
  node that is not in the graph throws, outside the \<^verbatim>\<open>try\<close>. A failed result ends
  the loop (\<^verbatim>\<open>break\<close>). The \<^verbatim>\<open>catch\<close> of the loop does the same for an error thrown
  by \<^verbatim>\<open>executeNode\<close>, which throws none.
\<close>

fun runNodes ::
  "'w Env \<Rightarrow> Graph \<Rightarrow> string list \<Rightarrow> RunState \<Rightarrow> 'w \<Rightarrow> GraphError + (RunState \<times> 'w)" where
  "runNodes env g [] st w = Inr (st, w)"
| "runNodes env g (nodeId # rest) st w =
     (case lookupNode g nodeId of
        None \<Rightarrow> Inl TypeError
      | Some node \<Rightarrow>
          (case executeNode env nodeId node (ctx st) w of
             (result, w') \<Rightarrow>
               if nr_success result
               then runNodes env g rest (recordSuccess nodeId node result st) w'
               else Inr (recordFailure nodeId result st, w')))"

definition extractFinalOutput ::
  "Graph \<Rightarrow> ExecutionContext \<Rightarrow> string list \<Rightarrow> GraphError + jsany" where
  "extractFinalOutput g c executionOrder =
     (if length executionOrder = 0 then Inr JNull
      else (case lookupNode g (executionOrder ! (length executionOrder - 1)) of
              None \<Rightarrow> Inl TypeError
            | Some lastNode \<Rightarrow>
                (let v = getProp (outputs c) (outputKey lastNode) in
                 Inr (if truthy v then v else JNull))))"

text \<open>
  \<^verbatim>\<open>execute\<close> in two parts: \<open>runGraph\<close> sorts the graph and runs the loop, keeping
  the order and the final state; \<open>compileResult\<close> builds the \<^verbatim>\<open>GraphResult\<close>.
\<close>

definition runGraph ::
  "'w Env \<Rightarrow> Graph \<Rightarrow> jsany \<Rightarrow> 'w \<Rightarrow> GraphError + (string list \<times> RunState \<times> 'w)" where
  "runGraph env g inp w =
     (case topologicalSort g of
        Inl e \<Rightarrow> Inl e
      | Inr (executionOrder, unreachable) \<Rightarrow>
          (case runNodes env g executionOrder (initialState inp) w of
             Inl e \<Rightarrow> Inl e
           | Inr (st, w') \<Rightarrow> Inr (executionOrder, st, w')))"

definition compileResult :: "Graph \<Rightarrow> string list \<Rightarrow> RunState \<Rightarrow> GraphError + GraphResult" where
  "compileResult g executionOrder st =
     (case extractFinalOutput g (ctx st) executionOrder of
        Inl e \<Rightarrow> Inl e
      | Inr finalOutput \<Rightarrow>
          Inr \<lparr>gr_success = (length (failedNodes (ctx st)) = 0),
               gr_output = finalOutput,
               gr_nodeResults = nodeResults st,
               gr_totalTokens = totalTokens st,
               gr_nodeCount = length executionOrder,
               gr_successCount = length (completedNodes (ctx st)),
               gr_failureCount = length (failedNodes (ctx st))\<rparr>)"

definition execute ::
  "'w Env \<Rightarrow> Graph \<Rightarrow> jsany \<Rightarrow> 'w \<Rightarrow> GraphError + (GraphResult \<times> 'w)" where
  "execute env g inp w =
     (case runGraph env g inp w of
        Inl e \<Rightarrow> Inl e
      | Inr (executionOrder, st, w') \<Rightarrow>
          (case compileResult g executionOrder st of
             Inl e \<Rightarrow> Inl e
           | Inr result \<Rightarrow> Inr (result, w')))"




section \<open>Predicates of the specification\<close>

text \<open>
  The words of the claims: a node id is present; \<open>depRel\<close> relates a node to each
  dependency it declares; \<open>reached\<close> are the ids met from the entry points along
  declared dependencies; \<open>dependenciesFirst\<close> says every dependency of a listed node
  stands strictly earlier in the list.
\<close>

definition hasNode :: "Graph \<Rightarrow> string \<Rightarrow> bool" where
  "hasNode g k = (lookupNode g k \<noteq> None)"

definition depRel :: "Graph \<Rightarrow> (string \<times> string) set" where
  "depRel g = {(n, d). \<exists>node. lookupNode g n = Some node \<and> d \<in> set (depsOf node)}"

definition reached :: "Graph \<Rightarrow> string set" where
  "reached g = (depRel g)\<^sup>* `` set (entryNodes g)"






text \<open>An entry of \<^verbatim>\<open>nodeResults\<close> whose result has \<^verbatim>\<open>success: true\<close>.\<close>

definition succeeded :: "string \<times> NodeResult \<Rightarrow> bool" where
  "succeeded p = nr_success (snd p)"

section \<open>Scenario graphs\<close>

definition scanNode :: GraphNode where
  "scanNode = \<lparr>agent = Explore, task = ''scan'', dependencies = None, model = None,
     outputKey = ''s''\<rparr>"

definition planNode :: GraphNode where
  "planNode = \<lparr>agent = Plan, task = ''plan'', dependencies = Some [''scan''], model = None,
     outputKey = ''p''\<rparr>"

definition scanPlanGraph :: Graph where
  "scanPlanGraph = \<lparr>nodes = [(''scan'', scanNode), (''plan'', planNode)], entry = Some ''scan''\<rparr>"





text \<open>The node of scenario 4: the task text \<open>scan\<close> and an explicit model.\<close>

definition overrideNode :: "ClaudeModel \<Rightarrow> GraphNode" where
  "overrideNode m = \<lparr>agent = Explore, task = ''scan'', dependencies = None, model = Some m,
     outputKey = ''s''\<rparr>"

text \<open>
  The chain of the fail-fast scenario, entered at its last node \<open>C\<close>, and three
  backends whose world counts their calls: one that throws at its second call, one that
  returns the number 0, and the simulated one of the source. \<open>stubStringify\<close> stands
  for \<^verbatim>\<open>JSON.stringify\<close>. The states are the ones these runs end in.
\<close>

definition chainGraph :: Graph where
  "chainGraph =
     \<lparr>nodes = [(''A'', \<lparr>agent = Explore, task = ''a'', dependencies = None, model = None,
                          outputKey = ''oa''\<rparr>),
               (''B'', \<lparr>agent = Plan, task = ''b'', dependencies = Some [''A''], model = None,
                          outputKey = ''ob''\<rparr>),
               (''C'', \<lparr>agent = GeneralPurpose, task = ''c'', dependencies = Some [''B''],
                          model = None, outputKey = ''oc''\<rparr>)],
      entry = Some ''C''\<rparr>"

definition stubStringify :: "bool \<Rightarrow> jsany \<Rightarrow> string option" where
  "stubStringify pretty v = (if v = JUndefined then None else Some ''{}'')"

definition failSecondInvoke ::
  "SubagentType \<Rightarrow> ClaudeModel \<Rightarrow> string \<Rightarrow> (string \<times> jsany) list \<Rightarrow> nat \<Rightarrow> (string + jsany) \<times> nat" where
  "failSecondInvoke a m prompt nodeInput w =
     (if w = 1 then (Inl ''backend failure'', Suc w) else (Inr (JStr ''done''), Suc w))"

definition failSecondEnv :: "nat Env" where
  "failSecondEnv = \<lparr>invokeSubagent = failSecondInvoke, jsonStringify = stubStringify,
     fround = (\<lambda>x. x)\<rparr>"




definition failSecondState :: RunState where
  "failSecondState =
     \<lparr>ctx = \<lparr>outputs = [(''oa'', JStr ''done'')], runInput = JNull,
              completedNodes = [''A''], failedNodes = [''B'']\<rparr>,
      nodeResults =
        [(''A'', \<lparr>nr_nodeId = ''A'', nr_success = True, nr_output = JStr ''done'',
                  nr_error = None, nr_tokensUsed = Some 49\<rparr>),
         (''B'', \<lparr>nr_nodeId = ''B'', nr_success = False, nr_output = JNull,
                  nr_error = Some ''backend failure'', nr_tokensUsed = None\<rparr>)],
      totalTokens = 49\<rparr>"



section \<open>The traversal: what a call of visit leaves behind\<close>

lemma visit_Inr_cases:
  assumes "visit g n (V, L) = Inr (V', L')"
  obtains (old) "n \<in> V" "V' = V" "L' = L"
  | (new) node L'' where "n \<notin> V" "lookupNode g n = Some node"
      "visitDeps g n (depsOf node) (insert n V, L) = Inr (V', L'')" "L' = L'' @ [n]"
  using assms by (auto simp: visit.simps split: if_splits option.splits sum.splits)

lemma visitDeps_Inr_cases:
  assumes "visitDeps g n (d # ds) s = Inr s'"
  obtains node s1 where "lookupNode g d = Some node" "visit g d s = Inr s1"
    "visitDeps g n ds s1 = Inr s'"
  using assms by (auto split: option.splits sum.splits)

text \<open>Success invariants, for every graph.\<close>

lemma visit_order:
  "visit g n s = Inr s' \<Longrightarrow>
     (\<exists>new. snd s' = snd s @ new \<and> set new = fst s' - fst s \<and> distinct new)
     \<and> fst s \<subseteq> fst s' \<and> n \<in> fst s'"
  "visitDeps g n ds s = Inr s' \<Longrightarrow>
     (\<exists>new. snd s' = snd s @ new \<and> set new = fst s' - fst s \<and> distinct new)
     \<and> fst s \<subseteq> fst s' \<and> set ds \<subseteq> fst s'"
proof (induct g n s and g n ds s arbitrary: s' and s' rule: visit_visitDeps.induct)
  case (1 g nodeId visited order)
  obtain V' L' where s': "s' = (V', L')" by (cases s')
  from 1(2)[unfolded s'] show ?case
  proof (cases rule: visit_Inr_cases)
    case old
    then show ?thesis by (simp add: s')
  next
    case (new node L'')
    from 1(1)[OF new(1) new(2) new(3)]
    obtain nw where nw: "L'' = order @ nw" "set nw = V' - insert nodeId visited" "distinct nw"
      and sub: "insert nodeId visited \<subseteq> V'"
      by auto
    have "L' = order @ (nw @ [nodeId])" using nw new(4) by simp
    moreover have "set (nw @ [nodeId]) = V' - visited" using nw sub new(1) by auto
    moreover have "distinct (nw @ [nodeId])" using nw by auto
    ultimately have "\<exists>new. L' = order @ new \<and> set new = V' - visited \<and> distinct new"
      by blast
    with sub show ?thesis by (simp add: s')
  qed
next
  case (2 g nodeId s)
  then show ?case by simp
next
  case (3 g nodeId depId rest s)
  from 3(3) obtain node s1 where node: "lookupNode g depId = Some node"
    and r1: "visit g depId s = Inr s1" and r2: "visitDeps g nodeId rest s1 = Inr s'"
    by (rule visitDeps_Inr_cases)
  from 3(1)[OF node r1] obtain n1 where n1: "snd s1 = snd s @ n1" "set n1 = fst s1 - fst s" "distinct n1"
    and A: "fst s \<subseteq> fst s1" "depId \<in> fst s1" by auto
  from 3(2)[OF node r1 r2] obtain n2 where n2: "snd s' = snd s1 @ n2" "set n2 = fst s' - fst s1" "distinct n2"
    and B: "fst s1 \<subseteq> fst s'" "set rest \<subseteq> fst s'" by auto
  have "snd s' = snd s @ (n1 @ n2)" using n1 n2 by simp
  moreover have "set (n1 @ n2) = fst s' - fst s" using n1 n2 A B by auto
  moreover have "distinct (n1 @ n2)" using n1 n2 by auto
  ultimately have "\<exists>new. snd s' = snd s @ new \<and> set new = fst s' - fst s \<and> distinct new"
    by blast
  moreover have "fst s \<subseteq> fst s'" using A B by auto
  moreover have "set (depId # rest) \<subseteq> fst s'" using A B by auto
  ultimately show ?case by simp
qed

lemma visit_reach:
  "visit g n s = Inr s' \<Longrightarrow> fst s' \<subseteq> fst s \<union> (depRel g)\<^sup>* `` {n}"
  "visitDeps g n ds s = Inr s' \<Longrightarrow> fst s' \<subseteq> fst s \<union> (depRel g)\<^sup>* `` set ds"
proof (induct g n s and g n ds s arbitrary: s' and s' rule: visit_visitDeps.induct)
  case (1 g nodeId visited order)
  obtain V' L' where s': "s' = (V', L')" by (cases s')
  from 1(2)[unfolded s'] show ?case
  proof (cases rule: visit_Inr_cases)
    case old
    then show ?thesis by (simp add: s')
  next
    case (new node L'')
    from 1(1)[OF new(1) new(2) new(3)]
    have IH: "V' \<subseteq> insert nodeId visited \<union> (depRel g)\<^sup>* `` set (depsOf node)" by simp
    have "(depRel g)\<^sup>* `` set (depsOf node) \<subseteq> (depRel g)\<^sup>* `` {nodeId}"
    proof
      fix x assume "x \<in> (depRel g)\<^sup>* `` set (depsOf node)"
      then obtain d where d: "d \<in> set (depsOf node)" "(d, x) \<in> (depRel g)\<^sup>*" by auto
      from d(1) new(2) have "(nodeId, d) \<in> depRel g" by (auto simp: depRel_def)
      with d(2) show "x \<in> (depRel g)\<^sup>* `` {nodeId}"
        by (auto intro: converse_rtrancl_into_rtrancl)
    qed
    with IH show ?thesis by (auto simp: s')
  qed
next
  case (2 g nodeId s)
  then show ?case by simp
next
  case (3 g nodeId depId rest s)
  from 3(3) obtain node s1 where node: "lookupNode g depId = Some node"
    and r1: "visit g depId s = Inr s1" and r2: "visitDeps g nodeId rest s1 = Inr s'"
    by (rule visitDeps_Inr_cases)
  from 3(1)[OF node r1] 3(2)[OF node r1 r2] show ?case by auto
qed

lemma visit_closed:
  "visit g n s = Inr s' \<Longrightarrow>
     (\<forall>m \<in> fst s' - fst s. hasNode g m \<and> (\<forall>node. lookupNode g m = Some node \<longrightarrow> set (depsOf node) \<subseteq> fst s'))"
  "visitDeps g n ds s = Inr s' \<Longrightarrow>
     (\<forall>m \<in> fst s' - fst s. hasNode g m \<and> (\<forall>node. lookupNode g m = Some node \<longrightarrow> set (depsOf node) \<subseteq> fst s'))"
proof (induct g n s and g n ds s arbitrary: s' and s' rule: visit_visitDeps.induct)
  case (1 g nodeId visited order)
  obtain V' L' where s': "s' = (V', L')" by (cases s')
  from 1(2)[unfolded s'] show ?case
  proof (cases rule: visit_Inr_cases)
    case old
    then show ?thesis by (simp add: s')
  next
    case (new node L'')
    from 1(1)[OF new(1) new(2) new(3)]
    have cl: "\<forall>m \<in> V' - insert nodeId visited. hasNode g m \<and> (\<forall>node. lookupNode g m = Some node \<longrightarrow> set (depsOf node) \<subseteq> V')"
      by simp
    from visit_order(2)[OF new(3)] have ds: "set (depsOf node) \<subseteq> V'" by simp
    show ?thesis
    proof (intro ballI)
      fix m
      assume m: "m \<in> fst s' - fst (visited, order)"
      show "hasNode g m \<and> (\<forall>node. lookupNode g m = Some node \<longrightarrow> set (depsOf node) \<subseteq> fst s')"
      proof (cases "m = nodeId")
        case True
        with new(2) ds show ?thesis by (simp add: s' hasNode_def)
      next
        case False
        with m have "m \<in> V' - insert nodeId visited" by (simp add: s')
        with cl show ?thesis by (simp add: s')
      qed
    qed
  qed
next
  case (2 g nodeId s)
  then show ?case by simp
next
  case (3 g nodeId depId rest s)
  from 3(3) obtain node s1 where node: "lookupNode g depId = Some node"
    and r1: "visit g depId s = Inr s1" and r2: "visitDeps g nodeId rest s1 = Inr s'"
    by (rule visitDeps_Inr_cases)
  note A = 3(1)[OF node r1]
  note B = 3(2)[OF node r1 r2]
  from visit_order(2)[OF r2] have sub: "fst s1 \<subseteq> fst s'" by simp
  show ?case
  proof (intro ballI)
    fix m
    assume m: "m \<in> fst s' - fst s"
    show "hasNode g m \<and> (\<forall>node. lookupNode g m = Some node \<longrightarrow> set (depsOf node) \<subseteq> fst s')"
    proof (cases "m \<in> fst s1")
      case True
      with m have "m \<in> fst s1 - fst s" by simp
      with A have "hasNode g m \<and> (\<forall>node. lookupNode g m = Some node \<longrightarrow> set (depsOf node) \<subseteq> fst s1)"
        by simp
      with sub show ?thesis by blast
    next
      case False
      with m have "m \<in> fst s' - fst s1" by simp
      with B show ?thesis by simp
    qed
  qed
qed






text \<open>The loop over the entry nodes.\<close>

lemma visitAll_order:
  "visitAll g es s = Inr s' \<Longrightarrow>
     (\<exists>new. snd s' = snd s @ new \<and> set new = fst s' - fst s \<and> distinct new)
     \<and> fst s \<subseteq> fst s' \<and> set es \<subseteq> fst s'"
proof (induction es arbitrary: s)
  case Nil
  then show ?case by simp
next
  case (Cons a es)
  from Cons.prems obtain s1 where r1: "visit g a s = Inr s1" and r2: "visitAll g es s1 = Inr s'"
    by (auto split: sum.splits)
  from visit_order(1)[OF r1] obtain n1 where n1: "snd s1 = snd s @ n1" "set n1 = fst s1 - fst s" "distinct n1"
    and A: "fst s \<subseteq> fst s1" "a \<in> fst s1" by auto
  from Cons.IH[OF r2] obtain n2 where n2: "snd s' = snd s1 @ n2" "set n2 = fst s' - fst s1" "distinct n2"
    and B: "fst s1 \<subseteq> fst s'" "set es \<subseteq> fst s'" by auto
  have "snd s' = snd s @ (n1 @ n2)" using n1 n2 by simp
  moreover have "set (n1 @ n2) = fst s' - fst s" using n1 n2 A B by auto
  moreover have "distinct (n1 @ n2)" using n1 n2 by auto
  ultimately have "\<exists>new. snd s' = snd s @ new \<and> set new = fst s' - fst s \<and> distinct new"
    by blast
  moreover have "fst s \<subseteq> fst s'" using A B by auto
  moreover have "set (a # es) \<subseteq> fst s'" using A B by auto
  ultimately show ?case by simp
qed

lemma visitAll_reach:
  "visitAll g es s = Inr s' \<Longrightarrow> fst s' \<subseteq> fst s \<union> (depRel g)\<^sup>* `` set es"
proof (induction es arbitrary: s)
  case Nil
  then show ?case by simp
next
  case (Cons a es)
  from Cons.prems obtain s1 where r1: "visit g a s = Inr s1" and r2: "visitAll g es s1 = Inr s'"
    by (auto split: sum.splits)
  from visit_reach(1)[OF r1] Cons.IH[OF r2] show ?case by auto
qed

lemma visitAll_closed:
  "visitAll g es s = Inr s' \<Longrightarrow>
     (\<forall>m \<in> fst s' - fst s. hasNode g m \<and> (\<forall>node. lookupNode g m = Some node \<longrightarrow> set (depsOf node) \<subseteq> fst s'))"
proof (induction es arbitrary: s)
  case Nil
  then show ?case by simp
next
  case (Cons a es)
  from Cons.prems obtain s1 where r1: "visit g a s = Inr s1" and r2: "visitAll g es s1 = Inr s'"
    by (auto split: sum.splits)
  note A = visit_closed(1)[OF r1]
  note B = Cons.IH[OF r2]
  from visitAll_order[OF r2] have sub: "fst s1 \<subseteq> fst s'" by simp
  show ?case
  proof (intro ballI)
    fix m
    assume m: "m \<in> fst s' - fst s"
    show "hasNode g m \<and> (\<forall>node. lookupNode g m = Some node \<longrightarrow> set (depsOf node) \<subseteq> fst s')"
    proof (cases "m \<in> fst s1")
      case True
      with m have "m \<in> fst s1 - fst s" by simp
      with A have "hasNode g m \<and> (\<forall>node. lookupNode g m = Some node \<longrightarrow> set (depsOf node) \<subseteq> fst s1)"
        by simp
      with sub show ?thesis by blast
    next
      case False
      with m have "m \<in> fst s' - fst s1" by simp
      with B show ?thesis by simp
    qed
  qed
qed


text \<open>What a successful sort returns.\<close>

lemma closed_reached:
  assumes "set es \<subseteq> V"
    and "\<forall>m \<in> V. \<forall>node. lookupNode g m = Some node \<longrightarrow> set (depsOf node) \<subseteq> V"
  shows "(depRel g)\<^sup>* `` set es \<subseteq> V"
proof
  fix x assume "x \<in> (depRel g)\<^sup>* `` set es"
  then obtain a where a: "a \<in> set es" "(a, x) \<in> (depRel g)\<^sup>*" by auto
  from a(2) show "x \<in> V"
  proof (induction rule: rtrancl_induct)
    case base
    with a(1) assms(1) show ?case by auto
  next
    case (step y z)
    from step(2) obtain node where "lookupNode g y = Some node" "z \<in> set (depsOf node)"
      by (auto simp: depRel_def)
    with step(3) assms(2) show ?case by blast
  qed
qed

lemma topologicalSort_Inr:
  assumes "topologicalSort g = Inr (order, unreachable)"
  shows "distinct order" "set order = reached g" "\<forall>m \<in> reached g. hasNode g m"
    "unreachable = filter (\<lambda>k. k \<notin> set order) (nodeIds g)"
proof -
  from assms obtain V where r: "visitAll g (entryNodes g) ({}, []) = Inr (V, order)"
    and u: "unreachable = filter (\<lambda>k. k \<notin> V) (nodeIds g)"
    by (auto simp: topologicalSort_def split: sum.splits)
  from visitAll_order[OF r] have o: "distinct order" "set order = V" "set (entryNodes g) \<subseteq> V"
    by auto
  from visitAll_reach[OF r] have sub: "V \<subseteq> reached g" by (simp add: reached_def)
  from visitAll_closed[OF r] have cl: "\<forall>m \<in> V. hasNode g m \<and> (\<forall>node. lookupNode g m = Some node \<longrightarrow> set (depsOf node) \<subseteq> V)"
    by simp
  from closed_reached[OF o(3)] cl have "reached g \<subseteq> V" by (simp add: reached_def)
  with sub have eq: "V = reached g" by auto
  show "distinct order" by (rule o(1))
  show "set order = reached g" using o(2) eq by simp
  show "\<forall>m \<in> reached g. hasNode g m" using cl eq by simp
  show "unreachable = filter (\<lambda>k. k \<notin> set order) (nodeIds g)" using u o(2) by simp
qed












section \<open>Properties of the scheduler\<close>

lemmas graph_eval =
  topologicalSort_def entryNodes_def noDependencies_def visit.simps lookupNode_def depsOf_def
  nodeIds_def




text \<open>
  C3. The code at the two-node graph of scenario 1: with the declared entry \<open>scan\<close> the
  traversal starts at \<open>scan\<close> and follows dependencies only, so it never reaches \<open>plan\<close>.
  The order is \<open>[scan]\<close> and \<open>plan\<close> is warned about as unreachable; with no declared
  entry the result is the same.
\<close>

theorem scenario1_order:
  "topologicalSort scanPlanGraph = Inr ([''scan''], [''plan''])
   \<and> topologicalSort (scanPlanGraph\<lparr>entry := None\<rparr>) = Inr ([''scan''], [''plan''])"
  by (simp add: scanPlanGraph_def scanNode_def planNode_def graph_eval)




section \<open>Properties of the router\<close>

lemma heuristics_scan: "selectModelByHeuristics (overrideNode m) c = Haiku"
  by (simp add: selectModelByHeuristics_def overrideNode_def toLowerCase_def toLowerChar_def)

text \<open>
  C7. A node that carries an explicit model gets that model from \<^verbatim>\<open>selectModel\<close>,
  whatever the task text and the runtime context: the decision is the node's agent,
  the node's model, the justification \<^verbatim>\<open>Explicitly specified in node definition\<close> (the
  code's text for an explicit override) and the cost estimate of that model, and it does
  not change when the task text or the context does. In particular the node with task
  text \<open>scan\<close> and an explicit model gets that model, where the keyword heuristics
  alone would choose the exploration tier, Haiku.
\<close>

theorem explicit_override:
  assumes "model node = Some m"
  shows "selectModel rnd node c =
           \<lparr>rd_agent = agent node, rd_model = m,
            rd_reasoning = ''Explicitly specified in node definition'',
            rd_estimatedCost = estimateCost rnd m 10000 2000\<rparr>
         \<and> selectModel rnd (node\<lparr>task := t\<rparr>) c' = selectModel rnd node c
         \<and> rd_model (selectModel rnd (overrideNode m) c) = m
         \<and> selectModelByHeuristics (overrideNode m) c = Haiku"
  using assms by (simp add: selectModel_def overrideNode_def heuristics_scan[unfolded overrideNode_def])

text \<open>The theorem at the node of scenario 4 with the model Sonnet.\<close>

theorem explicit_override_witness:
  "model (overrideNode Sonnet) = Some Sonnet
   \<and> rd_model (selectModel (\<lambda>x. x) (overrideNode Sonnet) \<lparr>fileCount = Some 100, complexity = Some Low\<rparr>) = Sonnet
   \<and> rd_reasoning (selectModel (\<lambda>x. x) (overrideNode Sonnet) \<lparr>fileCount = Some 100, complexity = Some Low\<rparr>)
       = ''Explicitly specified in node definition''
   \<and> selectModelByHeuristics (overrideNode Sonnet) \<lparr>fileCount = Some 100, complexity = Some Low\<rparr> = Haiku"
proof -
  have h: "model (overrideNode Sonnet) = Some Sonnet" by (simp add: overrideNode_def)
  from explicit_override[OF h, of "\<lambda>x. x" "\<lparr>fileCount = Some 100, complexity = Some Low\<rparr>"] h
  show ?thesis by simp
qed

lemma estimateCost_mono:
  assumes rnd: "mono rnd" "rnd 0 = 0" and i: "0 \<le> i" and o: "0 \<le> out"
    and cin: "costPer1MInputTokens (MODEL_CONFIGS rnd m1) \<le> costPer1MInputTokens (MODEL_CONFIGS rnd m2)"
    and cout: "costPer1MOutputTokens (MODEL_CONFIGS rnd m1) \<le> costPer1MOutputTokens (MODEL_CONFIGS rnd m2)"
  shows "estimateCost rnd m1 i out \<le> estimateCost rnd m2 i out"
proof -
  have pos: "0 \<le> rnd (x / 1000000)" if "0 \<le> x" for x
  proof -
    from that have "0 \<le> x / 1000000" by simp
    with rnd(1) have "rnd 0 \<le> rnd (x / 1000000)" by (rule monoD)
    with rnd(2) show ?thesis by simp
  qed
  have a: "rnd (rnd (i / 1000000) * costPer1MInputTokens (MODEL_CONFIGS rnd m1))
        \<le> rnd (rnd (i / 1000000) * costPer1MInputTokens (MODEL_CONFIGS rnd m2))"
    using rnd(1) by (rule monoD) (rule mult_left_mono[OF cin pos[OF i]])
  have b: "rnd (rnd (out / 1000000) * costPer1MOutputTokens (MODEL_CONFIGS rnd m1))
        \<le> rnd (rnd (out / 1000000) * costPer1MOutputTokens (MODEL_CONFIGS rnd m2))"
    using rnd(1) by (rule monoD) (rule mult_left_mono[OF cout pos[OF o]])
  from a b have "rnd (rnd (i / 1000000) * costPer1MInputTokens (MODEL_CONFIGS rnd m1))
        + rnd (rnd (out / 1000000) * costPer1MOutputTokens (MODEL_CONFIGS rnd m1))
      \<le> rnd (rnd (i / 1000000) * costPer1MInputTokens (MODEL_CONFIGS rnd m2))
        + rnd (rnd (out / 1000000) * costPer1MOutputTokens (MODEL_CONFIGS rnd m2))"
    by (rule add_mono)
  with rnd(1) show ?thesis unfolding estimateCost_def Let_def by (rule monoD)
qed

text \<open>
  C8. For non-negative token counts, a tier whose two rates are both greater or equal
  is never estimated cheaper; in particular the estimate for Haiku is at most the one
  for Sonnet, which is at most the one for Opus. The floating-point rounding is any
  monotone function that keeps 0, exact arithmetic included.
\<close>

theorem cost_monotone:
  assumes "mono rnd" and "rnd 0 = 0" and "0 \<le> i" and "0 \<le> out"
  shows "(costPer1MInputTokens (MODEL_CONFIGS rnd m1) \<le> costPer1MInputTokens (MODEL_CONFIGS rnd m2)
          \<and> costPer1MOutputTokens (MODEL_CONFIGS rnd m1) \<le> costPer1MOutputTokens (MODEL_CONFIGS rnd m2)
          \<longrightarrow> estimateCost rnd m1 i out \<le> estimateCost rnd m2 i out)
         \<and> estimateCost rnd Haiku i out \<le> estimateCost rnd Sonnet i out
         \<and> estimateCost rnd Sonnet i out \<le> estimateCost rnd Opus i out"
proof -
  have r: "rnd x \<le> rnd y" if "x \<le> y" for x y using assms(1) that by (rule monoD)
  have "estimateCost rnd Haiku i out \<le> estimateCost rnd Sonnet i out"
    by (rule estimateCost_mono[OF assms]) (simp_all add: r)
  moreover have "estimateCost rnd Sonnet i out \<le> estimateCost rnd Opus i out"
    by (rule estimateCost_mono[OF assms]) (simp_all add: r)
  ultimately show ?thesis using estimateCost_mono[OF assms, of m1 m2] by blast
qed

text \<open>The theorem in exact arithmetic at 10000 input and 2000 output tokens.\<close>

theorem cost_monotone_witness:
  "mono (\<lambda>x::real. x) \<and> (0::real) \<le> 10000 \<and> (0::real) \<le> 2000
   \<and> estimateCost (\<lambda>x. x) Haiku 10000 2000 = 16 / 1000
   \<and> estimateCost (\<lambda>x. x) Sonnet 10000 2000 = 3 / 10
   \<and> estimateCost (\<lambda>x. x) Opus 10000 2000 = 3 / 2
   \<and> estimateCost (\<lambda>x. x) Haiku 10000 2000 \<le> estimateCost (\<lambda>x. x) Sonnet 10000 2000
   \<and> estimateCost (\<lambda>x. x) Sonnet 10000 2000 \<le> estimateCost (\<lambda>x. x) Opus 10000 2000"
proof -
  have m: "mono (\<lambda>x::real. x)" by (simp add: mono_def)
  have z: "(\<lambda>x::real. x) 0 = 0" by simp
  have i: "(0::real) \<le> 10000" "(0::real) \<le> 2000" by simp_all
  have v: "estimateCost (\<lambda>x. x) Haiku 10000 2000 = 16 / 1000"
    "estimateCost (\<lambda>x. x) Sonnet 10000 2000 = 3 / 10"
    "estimateCost (\<lambda>x. x) Opus 10000 2000 = 3 / 2"
    by (simp_all add: estimateCost_def)
  from cost_monotone[OF m z i, of Haiku Haiku] m i v show ?thesis by simp
qed

section \<open>Properties of the context propagation\<close>

lemma findWithIndex_never:
  "(\<And>x i. \<not> p x i) \<Longrightarrow> findWithIndex p xs i = None"
  by (induction xs arbitrary: i) simp_all

lemma findDependencyOutput_undefined: "findDependencyOutput c depId = JUndefined"
  by (simp add: findDependencyOutput_def findWithIndex_never)

lemma collectInputs_unchanged: "collectInputs c ds inputs = inputs"
  by (induction ds arbitrary: inputs) (simp_all add: findDependencyOutput_undefined)

lemma prepareDependencyInputs_nil: "prepareDependencyInputs node c = []"
  by (simp add: prepareDependencyInputs_def collectInputs_unchanged split: option.splits)

text \<open>
  C2. What the code does where the claim asks for the dependency's output: the predicate
  of \<^verbatim>\<open>find\<close> compares an array index with the dependency id, a number with a
  string, so nothing is ever found and \<^verbatim>\<open>prepareDependencyInputs\<close> returns the empty
  map for every node and every context. So it does for \<open>plan\<close>, which depends on
  \<open>scan\<close>, in a context that holds 42 under the output key \<open>s\<close> of \<open>scan\<close>.
\<close>

theorem prepareDependencyInputs_empty:
  "prepareDependencyInputs node c = []
   \<and> prepareDependencyInputs planNode
        \<lparr>outputs = [(''s'', JNum 42)], runInput = JNull, completedNodes = [''scan''],
         failedNodes = []\<rparr> = []
   \<and> getProp [(''s'', JNum 42)] (outputKey scanNode) = JNum 42"
  by (simp add: prepareDependencyInputs_nil getProp_def scanNode_def)

section \<open>The loop of execute: the state it leaves\<close>

lemma update_fresh: "k \<notin> fst ` set al \<Longrightarrow> AList.update k v al = al @ [(k, v)]"
  by (induction al) auto

lemma ctx_recordSuccess:
  "completedNodes (ctx (recordSuccess n node r st)) = completedNodes (ctx st) @ [n]"
  "failedNodes (ctx (recordSuccess n node r st)) = failedNodes (ctx st)"
  "nodeResults (recordSuccess n node r st) = AList.update n r (nodeResults st)"
  by (simp_all add: recordSuccess_def)

lemma ctx_recordFailure:
  "completedNodes (ctx (recordFailure n r st)) = completedNodes (ctx st)"
  "failedNodes (ctx (recordFailure n r st)) = failedNodes (ctx st) @ [n]"
  "nodeResults (recordFailure n r st) = AList.update n r (nodeResults st)"
  "outputs (ctx (recordFailure n r st)) = outputs (ctx st)"
  by (simp_all add: recordFailure_def)

lemma runNodes_Cons_cases:
  assumes "runNodes env g (n # xs) st w = Inr (st', w')"
  obtains (ok) node r w1 where "lookupNode g n = Some node"
      "executeNode env n node (ctx st) w = (r, w1)" "nr_success r"
      "runNodes env g xs (recordSuccess n node r st) w1 = Inr (st', w')"
  | (failed) node r where "lookupNode g n = Some node"
      "executeNode env n node (ctx st) w = (r, w')" "\<not> nr_success r"
      "st' = recordFailure n r st"
  using assms by (auto split: option.splits prod.splits if_splits)

lemma runNodes_total:
  "\<forall>n \<in> set xs. hasNode g n \<Longrightarrow> \<exists>st' w'. runNodes env g xs st w = Inr (st', w')"
proof (induction xs arbitrary: st w)
  case Nil
  then show ?case by simp
next
  case (Cons n xs)
  from Cons.prems obtain node where node: "lookupNode g n = Some node"
    by (auto simp: hasNode_def)
  obtain r w1 where ex: "executeNode env n node (ctx st) w = (r, w1)"
    by (cases "executeNode env n node (ctx st) w")
  show ?case
  proof (cases "nr_success r")
    case True
    from Cons.prems have "\<forall>n \<in> set xs. hasNode g n" by simp
    from Cons.IH[OF this, of "recordSuccess n node r st" w1] node ex True
    show ?thesis by simp
  next
    case False
    with node ex show ?thesis by simp
  qed
qed

text \<open>The shape of the state the loop leaves.\<close>

lemma runNodes_shape:
  "runNodes env g xs st w = Inr (st', w') \<Longrightarrow> distinct xs \<Longrightarrow>
     set xs \<inter> fst ` set (nodeResults st) = {} \<Longrightarrow>
     \<exists>rs. nodeResults st' = nodeResults st @ rs
        \<and> map fst rs = take (length rs) xs
        \<and> completedNodes (ctx st') = completedNodes (ctx st) @ map fst (filter succeeded rs)
        \<and> failedNodes (ctx st') = failedNodes (ctx st) @ map fst (filter (\<lambda>p. \<not> succeeded p) rs)
        \<and> list_all succeeded (butlast rs)
        \<and> (list_all succeeded rs \<longrightarrow> length rs = length xs)
        \<and> runNodes env g (take (length rs) xs) st w = Inr (st', w')"
proof (induction xs arbitrary: st w)
  case Nil
  then show ?case by simp
next
  case (Cons n xs)
  from Cons.prems(3) have fresh: "n \<notin> fst ` set (nodeResults st)" by auto
  from Cons.prems(1) show ?case
  proof (cases rule: runNodes_Cons_cases)
    case (ok node r w1)
    let ?st1 = "recordSuccess n node r st"
    have nr1: "nodeResults ?st1 = nodeResults st @ [(n, r)]"
      using fresh by (simp add: ctx_recordSuccess update_fresh)
    have d: "distinct xs" using Cons.prems(2) by simp
    have disj: "set xs \<inter> fst ` set (nodeResults ?st1) = {}"
      using Cons.prems(2,3) by (auto simp: nr1)
    from Cons.IH[OF ok(4) d disj] obtain rs where rs:
      "nodeResults st' = nodeResults ?st1 @ rs"
      "map fst rs = take (length rs) xs"
      "completedNodes (ctx st') = completedNodes (ctx ?st1) @ map fst (filter succeeded rs)"
      "failedNodes (ctx st') = failedNodes (ctx ?st1) @ map fst (filter (\<lambda>p. \<not> succeeded p) rs)"
      "list_all succeeded (butlast rs)"
      "list_all succeeded rs \<longrightarrow> length rs = length xs"
      "runNodes env g (take (length rs) xs) ?st1 w1 = Inr (st', w')"
      by blast
    let ?rs = "(n, r) # rs"
    have s: "succeeded (n, r)" using ok(3) by (simp add: succeeded_def)
    have 1: "nodeResults st' = nodeResults st @ ?rs" using rs(1) nr1 by simp
    have 2: "map fst ?rs = take (length ?rs) (n # xs)" using rs(2) by simp
    have 3: "completedNodes (ctx st') = completedNodes (ctx st) @ map fst (filter succeeded ?rs)"
      using rs(3) s by (simp add: ctx_recordSuccess)
    have 4: "failedNodes (ctx st') = failedNodes (ctx st) @ map fst (filter (\<lambda>p. \<not> succeeded p) ?rs)"
      using rs(4) s by (simp add: ctx_recordSuccess)
    have 5: "list_all succeeded (butlast ?rs)" using rs(5) s by simp
    have 6: "list_all succeeded ?rs \<longrightarrow> length ?rs = length (n # xs)" using rs(6) by simp
    have 7: "runNodes env g (take (length ?rs) (n # xs)) st w = Inr (st', w')"
      using rs(7) ok(1,2,3) by simp
    from 1 2 3 4 5 6 7 show ?thesis by blast
  next
    case (failed node r)
    let ?rs = "[(n, r)]"
    have s: "\<not> succeeded (n, r)" using failed(3) by (simp add: succeeded_def)
    have 1: "nodeResults st' = nodeResults st @ ?rs"
      using fresh failed(4) by (simp add: ctx_recordFailure update_fresh)
    have 2: "map fst ?rs = take (length ?rs) (n # xs)" by simp
    have 3: "completedNodes (ctx st') = completedNodes (ctx st) @ map fst (filter succeeded ?rs)"
      using s failed(4) by (simp add: ctx_recordFailure)
    have 4: "failedNodes (ctx st') = failedNodes (ctx st) @ map fst (filter (\<lambda>p. \<not> succeeded p) ?rs)"
      using s failed(4) by (simp add: ctx_recordFailure)
    have 5: "list_all succeeded (butlast ?rs)" by simp
    have 6: "list_all succeeded ?rs \<longrightarrow> length ?rs = length (n # xs)" using s by simp
    have 7: "runNodes env g (take (length ?rs) (n # xs)) st w = Inr (st', w')"
      using failed by simp
    from 1 2 3 4 5 6 7 show ?thesis by blast
  qed
qed

lemma filter_failed_last:
  assumes "list_all P (butlast rs)"
  shows "filter (\<lambda>p. \<not> P p) rs = (if rs \<noteq> [] \<and> \<not> P (last rs) then [last rs] else [])"
    and "filter P rs = (if rs \<noteq> [] \<and> \<not> P (last rs) then butlast rs else rs)"
proof -
  show "filter (\<lambda>p. \<not> P p) rs = (if rs \<noteq> [] \<and> \<not> P (last rs) then [last rs] else [])"
  proof (cases rs rule: rev_cases)
    case Nil
    then show ?thesis by simp
  next
    case (snoc ys y)
    with assms have "list_all P ys" by simp
    then have "filter (\<lambda>p. \<not> P p) ys = []" by (simp add: list_all_iff filter_empty_conv)
    with snoc show ?thesis by simp
  qed
  show "filter P rs = (if rs \<noteq> [] \<and> \<not> P (last rs) then butlast rs else rs)"
  proof (cases rs rule: rev_cases)
    case Nil
    then show ?thesis by simp
  next
    case (snoc ys y)
    with assms have "list_all P ys" by simp
    then have "filter P ys = ys" by (simp add: list_all_iff)
    with snoc show ?thesis by simp
  qed
qed

lemma initialState_fields:
  "nodeResults (initialState inp) = []"
  "completedNodes (ctx (initialState inp)) = []"
  "failedNodes (ctx (initialState inp)) = []"
  "outputs (ctx (initialState inp)) = []"
  by (simp_all add: initialState_def)

lemma run_summary:
  assumes "runNodes env g xs (initialState inp) w = Inr (st, w')" and "distinct xs"
  shows "map fst (nodeResults st) = take (length (nodeResults st)) xs"
    and "completedNodes (ctx st) = map fst (filter succeeded (nodeResults st))"
    and "failedNodes (ctx st) = map fst (filter (\<lambda>p. \<not> succeeded p) (nodeResults st))"
    and "list_all succeeded (butlast (nodeResults st))"
    and "list_all succeeded (nodeResults st) \<longrightarrow> length (nodeResults st) = length xs"
    and "runNodes env g (take (length (nodeResults st)) xs) (initialState inp) w = Inr (st, w')"
proof -
  have "set xs \<inter> fst ` set (nodeResults (initialState inp)) = {}"
    by (simp add: initialState_fields)
  from runNodes_shape[OF assms(1,2) this] obtain rs where rs:
    "nodeResults st = nodeResults (initialState inp) @ rs"
    "map fst rs = take (length rs) xs"
    "completedNodes (ctx st) = completedNodes (ctx (initialState inp)) @ map fst (filter succeeded rs)"
    "failedNodes (ctx st) = failedNodes (ctx (initialState inp)) @ map fst (filter (\<lambda>p. \<not> succeeded p) rs)"
    "list_all succeeded (butlast rs)"
    "list_all succeeded rs \<longrightarrow> length rs = length xs"
    "runNodes env g (take (length rs) xs) (initialState inp) w = Inr (st, w')"
    by blast
  from rs(1) have eq: "rs = nodeResults st" by (simp add: initialState_fields)
  show "map fst (nodeResults st) = take (length (nodeResults st)) xs" using rs(2) eq by simp
  show "completedNodes (ctx st) = map fst (filter succeeded (nodeResults st))"
    using rs(3) eq by (simp add: initialState_fields)
  show "failedNodes (ctx st) = map fst (filter (\<lambda>p. \<not> succeeded p) (nodeResults st))"
    using rs(4) eq by (simp add: initialState_fields)
  show "list_all succeeded (butlast (nodeResults st))" using rs(5) eq by simp
  show "list_all succeeded (nodeResults st) \<longrightarrow> length (nodeResults st) = length xs"
    using rs(6) eq by simp
  show "runNodes env g (take (length (nodeResults st)) xs) (initialState inp) w = Inr (st, w')"
    using rs(7) eq by simp
qed

lemma run_lists:
  assumes "runNodes env g xs (initialState inp) w = Inr (st, w')" and "distinct xs"
  shows "length (failedNodes (ctx st)) \<le> 1"
    and "map fst (nodeResults st) = completedNodes (ctx st) @ failedNodes (ctx st)"
    and "failedNodes (ctx st) = [] \<longleftrightarrow> list_all succeeded (nodeResults st)"
proof -
  note s = run_summary[OF assms]
  note f = filter_failed_last[OF s(4)]
  show "length (failedNodes (ctx st)) \<le> 1" using s(3) f(1) by simp
  show "map fst (nodeResults st) = completedNodes (ctx st) @ failedNodes (ctx st)"
  proof (cases "nodeResults st \<noteq> [] \<and> \<not> succeeded (last (nodeResults st))")
    case True
    then have "butlast (nodeResults st) @ [last (nodeResults st)] = nodeResults st"
      by simp
    then have "map fst (nodeResults st)
        = map fst (butlast (nodeResults st) @ [last (nodeResults st)])" by simp
    also have "\<dots> = map fst (butlast (nodeResults st)) @ [fst (last (nodeResults st))]"
      by (simp only: map_append list.map)
    finally show ?thesis using s(2,3) f True by simp
  next
    case False
    then show ?thesis using s(2,3) f by auto
  qed
  show "failedNodes (ctx st) = [] \<longleftrightarrow> list_all succeeded (nodeResults st)"
    using s(3) by (simp add: filter_empty_conv list_all_iff)
qed

lemma sorted_nodes:
  assumes "topologicalSort g = Inr (order, u)"
  shows "distinct order" "\<forall>n \<in> set order. hasNode g n"
  using topologicalSort_Inr[OF assms] by auto

lemma runGraph_Inr:
  assumes "runGraph env g inp w = Inr (order, st, w')"
  obtains u where "topologicalSort g = Inr (order, u)"
    "runNodes env g order (initialState inp) w = Inr (st, w')"
  using assms by (auto simp: runGraph_def split: sum.splits)

lemma runGraph_total:
  assumes "topologicalSort g = Inr (order, u)"
  shows "\<exists>st w'. runGraph env g inp w = Inr (order, st, w')"
proof -
  from runNodes_total[OF sorted_nodes(2)[OF assms], of env "initialState inp" w]
  obtain st w' where "runNodes env g order (initialState inp) w = Inr (st, w')" by blast
  with assms show ?thesis by (simp add: runGraph_def)
qed

lemma extractFinalOutput_nodes:
  assumes "\<forall>n \<in> set order. hasNode g n"
  shows "order = [] \<Longrightarrow> extractFinalOutput g c order = Inr JNull"
    and "order \<noteq> [] \<Longrightarrow> \<exists>lastNode. lookupNode g (last order) = Some lastNode
          \<and> extractFinalOutput g c order =
              Inr (if truthy (getProp (outputs c) (outputKey lastNode))
                   then getProp (outputs c) (outputKey lastNode) else JNull)"
proof -
  show "order = [] \<Longrightarrow> extractFinalOutput g c order = Inr JNull"
    by (simp add: extractFinalOutput_def)
  assume ne: "order \<noteq> []"
  then have "last order \<in> set order" by simp
  with assms obtain lastNode where l: "lookupNode g (last order) = Some lastNode"
    by (auto simp: hasNode_def)
  from ne have "order ! (length order - 1) = last order" by (simp add: last_conv_nth)
  with l ne have "extractFinalOutput g c order =
      Inr (if truthy (getProp (outputs c) (outputKey lastNode))
           then getProp (outputs c) (outputKey lastNode) else JNull)"
    by (simp add: extractFinalOutput_def Let_def)
  with l show "\<exists>lastNode. lookupNode g (last order) = Some lastNode
          \<and> extractFinalOutput g c order =
              Inr (if truthy (getProp (outputs c) (outputKey lastNode))
                   then getProp (outputs c) (outputKey lastNode) else JNull)"
    by blast
qed

lemma execute_of_runGraph:
  assumes "runGraph env g inp w = Inr (order, st, w')"
  shows "\<exists>out. extractFinalOutput g (ctx st) order = Inr out
     \<and> execute env g inp w =
         Inr (\<lparr>gr_success = (length (failedNodes (ctx st)) = 0), gr_output = out,
               gr_nodeResults = nodeResults st, gr_totalTokens = totalTokens st,
               gr_nodeCount = length order,
               gr_successCount = length (completedNodes (ctx st)),
               gr_failureCount = length (failedNodes (ctx st))\<rparr>, w')"
proof -
  from assms obtain u where u: "topologicalSort g = Inr (order, u)" by (rule runGraph_Inr)
  note n = sorted_nodes(2)[OF u]
  have "\<exists>out. extractFinalOutput g (ctx st) order = Inr out"
    using extractFinalOutput_nodes[OF n, of "ctx st"] by (cases "order = []") auto
  then obtain out where "extractFinalOutput g (ctx st) order = Inr out" ..
  with assms show ?thesis by (simp add: execute_def compileResult_def)
qed



lemma same_key:
  assumes "distinct (map fst xs)" "p \<in> set xs" "q \<in> set xs" "fst q = fst p"
  shows "q = p"
proof -
  from assms(1) have "inj_on fst (set xs)" by (simp add: distinct_map)
  from this assms(4,3,2) show ?thesis by (rule inj_onD)
qed



text \<open>The runs of the scenarios, evaluated.\<close>

lemmas run_eval =
  runGraph_def executeNode_def selectModel_def selectModelByHeuristics_def toLowerCase_def
  toLowerChar_def buildPrompt_def printJson_def estimateTokens_def failureResult_def
  recordSuccess_def recordFailure_def initialState_def stubStringify_def

lemma chain_sorted: "topologicalSort chainGraph = Inr ([''A'', ''B'', ''C''], [])"
  by (simp add: chainGraph_def graph_eval)

lemma chain_nodes:
  "lookupNode chainGraph ''A'' = Some \<lparr>agent = Explore, task = ''a'', dependencies = None,
      model = None, outputKey = ''oa''\<rparr>"
  "lookupNode chainGraph ''B'' = Some \<lparr>agent = Plan, task = ''b'', dependencies = Some [''A''],
      model = None, outputKey = ''ob''\<rparr>"
  "lookupNode chainGraph ''C'' = Some \<lparr>agent = GeneralPurpose, task = ''c'',
      dependencies = Some [''B''], model = None, outputKey = ''oc''\<rparr>"
  by (simp_all add: chainGraph_def lookupNode_def)

lemma failSecond_loop:
  "runNodes failSecondEnv chainGraph [''A'', ''B'', ''C''] (initialState JNull) 0
     = Inr (failSecondState, 2)"
  by (simp add: chain_nodes run_eval prepareDependencyInputs_nil failSecondEnv_def
      failSecondInvoke_def failSecondState_def)










section \<open>Properties of the orchestrator\<close>






text \<open>
  C9. After any number \<open>j\<close> of iterations of the loop of \<^verbatim>\<open>execute\<close> (the state
  the loop over the first \<open>j\<close> nodes of the order ends in, which is the final state
  already when a node failed earlier), \<^verbatim>\<open>failedNodes\<close> holds at most one node id; the
  node ids of \<^verbatim>\<open>nodeResults\<close> are the completed nodes followed by the failed ones, and
  they are a prefix of the execution order; the results of the completed nodes are
  successes and those of the failed node failures. So \<^verbatim>\<open>failureCount\<close> of the
  \<^verbatim>\<open>GraphResult\<close> is at most 1 and its \<^verbatim>\<open>nodeResults\<close> list a prefix of the order.
\<close>

theorem run_invariant:
  assumes "topologicalSort g = Inr (order, unreachable)"
    and "runNodes env g (take j order) (initialState inp) w = Inr (st, w')"
  shows "length (failedNodes (ctx st)) \<le> 1
     \<and> map fst (nodeResults st) = completedNodes (ctx st) @ failedNodes (ctx st)
     \<and> (\<exists>k \<le> length order. map fst (nodeResults st) = take k order)
     \<and> list_all succeeded (filter (\<lambda>p. fst p \<in> set (completedNodes (ctx st))) (nodeResults st))
     \<and> list_all (\<lambda>p. \<not> succeeded p) (filter (\<lambda>p. fst p \<in> set (failedNodes (ctx st))) (nodeResults st))
     \<and> (\<forall>res w''. execute env g inp w = Inr (res, w'') \<longrightarrow>
           gr_failureCount res \<le> 1
           \<and> (\<exists>k \<le> length order. map fst (gr_nodeResults res) = take k order))"
proof -
  let ?rs = "nodeResults st"
  note d = sorted_nodes(1)[OF assms(1)]
  then have dj: "distinct (take j order)" by simp
  note s = run_summary[OF assms(2) dj]
  note l = run_lists[OF assms(2) dj]
  have "map fst ?rs = take (min (length ?rs) j) order" using s(1) by simp
  moreover have "length ?rs \<le> length order"
  proof -
    from s(1) have "length (map fst ?rs) = length (take (length ?rs) (take j order))" by simp
    then show ?thesis by simp
  qed
  ultimately have pre: "\<exists>k \<le> length order. map fst ?rs = take k order"
    by (intro exI[of _ "min (length ?rs) j"]) simp
  have dk: "distinct (map fst ?rs)" using s(1) d by simp
  have mem: "p \<in> set (filter Q ?rs) \<Longrightarrow> fst p \<in> fst ` set (filter Q ?rs)" for p Q by simp
  have c: "list_all succeeded (filter (\<lambda>p. fst p \<in> set (completedNodes (ctx st))) ?rs)"
    unfolding list_all_iff
  proof
    fix p assume "p \<in> set (filter (\<lambda>p. fst p \<in> set (completedNodes (ctx st))) ?rs)"
    then have p: "p \<in> set ?rs" "fst p \<in> fst ` set (filter succeeded ?rs)" using s(2) by auto
    then obtain q where q: "q \<in> set ?rs" "succeeded q" "fst q = fst p" by auto
    from dk p(1) q(1,3) have "q = p" by (rule same_key)
    with q(2) show "succeeded p" by simp
  qed
  have f: "list_all (\<lambda>p. \<not> succeeded p) (filter (\<lambda>p. fst p \<in> set (failedNodes (ctx st))) ?rs)"
    unfolding list_all_iff
  proof
    fix p assume "p \<in> set (filter (\<lambda>p. fst p \<in> set (failedNodes (ctx st))) ?rs)"
    then have p: "p \<in> set ?rs" "fst p \<in> fst ` set (filter (\<lambda>p. \<not> succeeded p) ?rs)"
      using s(3) by auto
    then obtain q where q: "q \<in> set ?rs" "\<not> succeeded q" "fst q = fst p" by auto
    from dk p(1) q(1,3) have "q = p" by (rule same_key)
    with q(2) show "\<not> succeeded p" by simp
  qed
  have e: "\<forall>res w''. execute env g inp w = Inr (res, w'') \<longrightarrow>
           gr_failureCount res \<le> 1
           \<and> (\<exists>k \<le> length order. map fst (gr_nodeResults res) = take k order)"
  proof (intro allI impI)
    fix res w'' assume ex: "execute env g inp w = Inr (res, w'')"
    from runGraph_total[OF assms(1), of env inp w] obtain st2 w2
      where rg: "runGraph env g inp w = Inr (order, st2, w2)" by blast
    then obtain u where run2: "runNodes env g order (initialState inp) w = Inr (st2, w2)"
      by (rule runGraph_Inr)
    note s2 = run_summary[OF run2 d]
    note l2 = run_lists[OF run2 d]
    from execute_of_runGraph[OF rg] ex
    have res: "gr_failureCount res = length (failedNodes (ctx st2))"
      "gr_nodeResults res = nodeResults st2" by auto
    have "length (nodeResults st2) \<le> length order"
    proof -
      from s2(1) have "length (map fst (nodeResults st2)) = length (take (length (nodeResults st2)) order)"
        by simp
      then show ?thesis by simp
    qed
    with s2(1) have "\<exists>k \<le> length order. map fst (nodeResults st2) = take k order" by blast
    with l2(1) res show "gr_failureCount res \<le> 1
           \<and> (\<exists>k \<le> length order. map fst (gr_nodeResults res) = take k order)" by simp
  qed
  from l(1,2) pre c f e show ?thesis by blast
qed

text \<open>The theorem at the chain with the backend that throws at its second call.\<close>

theorem run_invariant_witness:
  "topologicalSort chainGraph = Inr ([''A'', ''B'', ''C''], [])
   \<and> runNodes failSecondEnv chainGraph (take 3 [''A'', ''B'', ''C'']) (initialState JNull) 0
        = Inr (failSecondState, 2)
   \<and> length (failedNodes (ctx failSecondState)) \<le> 1
   \<and> map fst (nodeResults failSecondState)
        = completedNodes (ctx failSecondState) @ failedNodes (ctx failSecondState)
   \<and> map fst (nodeResults failSecondState) = take 2 [''A'', ''B'', ''C'']"
proof -
  have l: "runNodes failSecondEnv chainGraph (take 3 [''A'', ''B'', ''C'']) (initialState JNull) 0
        = Inr (failSecondState, 2)"
    using failSecond_loop by (simp del: runNodes.simps)
  note t = run_invariant[OF chain_sorted l]
  have "map fst (nodeResults failSecondState) = take 2 [''A'', ''B'', ''C'']"
    by (simp add: failSecondState_def)
  with t[THEN conjunct1] t[THEN conjunct2, THEN conjunct1] chain_sorted l
  show ?thesis by blast
qed



end
